theory Spec2Isabelle
  imports Main "HOL-Library.Word"
begin

section \<open>The MediolanoMarketplace contract (lib.cairo)\<close>

text \<open>
  A shallow embedding of \<^verbatim>\<open>src/onchain/ip_marketplace_bulk_order/src/lib.cairo\<close>.
  A Cairo \<^verbatim>\<open>u256\<close> is a 256-bit word whose \<^verbatim>\<open>+\<close> and \<^verbatim>\<open>*\<close> panic on
  overflow; a \<^verbatim>\<open>ContractAddress\<close> and a \<^verbatim>\<open>felt252\<close> are opaque numbers that
  the contract only stores and compares, with zero as the value of an unwritten slot.
\<close>

type_synonym u256 = "256 word"
type_synonym ContractAddress = nat
type_synonym felt252 = nat

subsection \<open>Data\<close>

record DigitalAsset =
  seller :: ContractAddress
  asset_id :: u256
  price :: u256
  metadata_ipfs_hash :: felt252

text \<open>
  The events of the contract. \<open>AssetPurchased asset_id buyer seller price\<close> and
  \<open>AssetRegistered asset_id seller price\<close>, with the fields in the order of the structs.
\<close>

datatype Event =
  AssetPurchased u256 ContractAddress ContractAddress u256
| AssetRegistered u256 ContractAddress u256

text \<open>
  One call of the ERC20 dispatcher:
  \<open>TransferFrom currency sender recipient amount\<close> stands for
  \<^verbatim>\<open>IERC20Dispatcher { contract_address: currency }.transferFrom(sender, recipient, amount)\<close>.
\<close>

datatype Call = TransferFrom ContractAddress ContractAddress ContractAddress u256

text \<open>
  The panics of the contract, named as the specification names them. In the source they are
  the messages \<^verbatim>\<open>Caller is not the owner\<close> (Ownable), \<^verbatim>\<open>Pausable: paused\<close>,
  \<^verbatim>\<open>Invalid payment currency\<close>, \<^verbatim>\<open>Unregistered asset\<close>,
  \<^verbatim>\<open>Asset already registered\<close>, \<^verbatim>\<open>Invalid commission rate\<close>,
  \<^verbatim>\<open>Invalid asset ownership\<close>, the overflow panics of \<^verbatim>\<open>u256\<close> addition and
  multiplication, and a panic raised inside the called token contract.
\<close>

datatype error =
  Unauthorized
| SystemPaused
| UnsupportedCurrency
| UnregisteredAsset
| AssetAlreadyRegistered
| InvalidCommissionRate
| InvalidAssetOwnership
| ArithmeticOverflow
| TransferFailed

text \<open>
  The state a call runs on. The first eight fields are the \<^verbatim>\<open>Storage\<close> struct: the
  storage of the Ownable and Pausable components (their owner and their pause flag), then
  \<^verbatim>\<open>owner\<close>, \<^verbatim>\<open>commission_rate\<close> and the four \<^verbatim>\<open>LegacyMap\<close>s, which read
  as zero or false where nothing was written. \<open>events\<close> is the log of emitted events,
  \<open>ledger\<close> the state of the token contracts (of any type \<open>'l\<close>: the tokens are not part of
  this repository), and \<open>calls\<close> the dispatcher calls made so far, in order.
\<close>

record 'l ContractState =
  ownable_owner :: ContractAddress
  pausable_paused :: bool
  owner :: ContractAddress
  commission_rate :: u256
  supported_currencies :: "ContractAddress \<Rightarrow> bool"
  asset_metadata :: "u256 \<Rightarrow> felt252"
  asset_ownership :: "u256 \<Rightarrow> ContractAddress"
  asset_registered :: "u256 \<Rightarrow> bool"
  events :: "Event list"
  ledger :: 'l
  calls :: "Call list"

text \<open>
  A function that writes state returns \<open>Inr\<close> of the new state, or \<open>Inl (e, s)\<close> when it
  panics with \<open>e\<close>, where \<open>s\<close> is the state reached at the moment of the panic.
\<close>

type_synonym 'l result = "(error \<times> 'l ContractState) + 'l ContractState"

text \<open>
  The token behind a currency address is a parameter of the model: given the currency, the
  ledger, sender, recipient and amount, it panics (\<open>None\<close>) or returns the \<^verbatim>\<open>bool\<close> of
  \<^verbatim>\<open>transferFrom\<close> together with the new ledger.
\<close>

type_synonym 'l token =
  "ContractAddress \<Rightarrow> 'l \<Rightarrow> ContractAddress \<Rightarrow> ContractAddress \<Rightarrow> u256 \<Rightarrow> (bool \<times> 'l) option"

subsection \<open>Transactions\<close>

text \<open>
  An external call either succeeds and keeps its writes, or panics, and then the
  transaction is reverted: storage, events and the tokens' ledgers are as before the call.
\<close>

datatype outcome = Succeeded | Reverted error

definition invoke :: "('l ContractState \<Rightarrow> 'l result) \<Rightarrow> 'l ContractState \<Rightarrow> outcome \<times> 'l ContractState" where
  "invoke f s = (case f s of Inl (e, _) \<Rightarrow> (Reverted e, s) | Inr s' \<Rightarrow> (Succeeded, s'))"

subsection \<open>Checked arithmetic of u256\<close>

definition u256_add :: "u256 \<Rightarrow> u256 \<Rightarrow> error + u256" where
  "u256_add a b = (if unat a + unat b < 2 ^ 256 then Inr (a + b) else Inl ArithmeticOverflow)"

definition u256_mul :: "u256 \<Rightarrow> u256 \<Rightarrow> error + u256" where
  "u256_mul a b = (if unat a * unat b < 2 ^ 256 then Inr (a * b) else Inl ArithmeticOverflow)"

subsection \<open>Components used by the contract\<close>

text \<open>
  Modelled from the spec: the body of \<^verbatim>\<open>OwnableComponent::assert_only_owner\<close> is not
  under src/. The specification gives it as a predicate \<^verbatim>\<open>is_privileged(caller)\<close> whose
  failure is \<^verbatim>\<open>Unauthorized\<close>; the privileged principal is the owner the component stores.
\<close>

definition assert_only_owner :: "'l ContractState \<Rightarrow> ContractAddress \<Rightarrow> error option" where
  "assert_only_owner s caller = (if caller = ownable_owner s then None else Some Unauthorized)"

text \<open>
  Modelled from the spec: the body of \<^verbatim>\<open>PausableComponent::assert_not_paused\<close> is not
  under src/. The specification gives it as a predicate \<^verbatim>\<open>is_paused()\<close> whose truth
  makes a purchase fail with \<^verbatim>\<open>SystemPaused\<close>.
\<close>

definition assert_not_paused :: "'l ContractState \<Rightarrow> error option" where
  "assert_not_paused s = (if pausable_paused s then Some SystemPaused else None)"

text \<open>
  The dispatcher call. A panic of the token propagates; the returned \<^verbatim>\<open>bool\<close> is
  dropped, as both call sites of the source drop it.
\<close>

definition transferFrom ::
  "'l token \<Rightarrow> ContractAddress \<Rightarrow> ContractAddress \<Rightarrow> ContractAddress \<Rightarrow> u256 \<Rightarrow> 'l ContractState \<Rightarrow> 'l result" where
  "transferFrom tok currency sender recipient amount s =
     (case tok currency (ledger s) sender recipient amount of
        None \<Rightarrow> Inl (TransferFailed, s)
      | Some (_, l') \<Rightarrow>
          Inr (s\<lparr>ledger := l', calls := calls s @ [TransferFrom currency sender recipient amount]\<rparr>))"

subsection \<open>Internal functions\<close>

text \<open>
  \<^verbatim>\<open>calculate_total_price\<close> takes a snapshot of the state and returns a number: it cannot
  write. The loop checks the registration of an item before adding its price.
\<close>

fun calculate_total_price_loop :: "'l ContractState \<Rightarrow> u256 \<Rightarrow> DigitalAsset list \<Rightarrow> error + u256" where
  "calculate_total_price_loop s tot [] = Inr tot"
| "calculate_total_price_loop s tot (asset # rest) =
     (if \<not> asset_registered s (asset_id asset) then Inl UnregisteredAsset
      else case u256_add tot (price asset) of
             Inl e \<Rightarrow> Inl e
           | Inr tot' \<Rightarrow> calculate_total_price_loop s tot' rest)"

definition calculate_total_price :: "'l ContractState \<Rightarrow> DigitalAsset list \<Rightarrow> error + u256" where
  "calculate_total_price s assets = calculate_total_price_loop s 0 assets"

text \<open>The second loop of \<^verbatim>\<open>process_payments\<close>: pay the declared seller, then emit.\<close>

fun pay_sellers ::
  "'l token \<Rightarrow> ContractAddress \<Rightarrow> ContractAddress \<Rightarrow> DigitalAsset list \<Rightarrow> 'l ContractState \<Rightarrow> 'l result" where
  "pay_sellers tok currency buyer [] s = Inr s"
| "pay_sellers tok currency buyer (asset # rest) s =
     (let seller_amount = price asset in
      case transferFrom tok currency buyer (seller asset) seller_amount s of
        Inl x \<Rightarrow> Inl x
      | Inr s1 \<Rightarrow>
          pay_sellers tok currency buyer rest
            (s1\<lparr>events := events s1 @ [AssetPurchased (asset_id asset) buyer (seller asset) seller_amount]\<rparr>))"

definition process_payments ::
  "'l token \<Rightarrow> DigitalAsset list \<Rightarrow> u256 \<Rightarrow> ContractAddress \<Rightarrow> ContractAddress \<Rightarrow> 'l ContractState \<Rightarrow> 'l result" where
  "process_payments tok assets total_price currency buyer s =
     (let rate = commission_rate s in
      case u256_mul total_price rate of
        Inl e \<Rightarrow> Inl (e, s)
      | Inr scaled \<Rightarrow>
          (let commission = scaled div 10000;
               mediolano_address = owner s in
           case transferFrom tok currency buyer mediolano_address commission s of
             Inl x \<Rightarrow> Inl x
           | Inr s1 \<Rightarrow> pay_sellers tok currency buyer assets s1))"

fun transfer_asset_ownership :: "DigitalAsset list \<Rightarrow> ContractAddress \<Rightarrow> 'l ContractState \<Rightarrow> 'l result" where
  "transfer_asset_ownership [] buyer s = Inr s"
| "transfer_asset_ownership (asset # rest) buyer s =
     (let current_owner = asset_ownership s (asset_id asset) in
      if current_owner \<noteq> seller asset then Inl (InvalidAssetOwnership, s)
      else transfer_asset_ownership rest buyer
             (s\<lparr>asset_ownership := (asset_ownership s)(asset_id asset := buyer)\<rparr>))"

subsection \<open>The external functions\<close>

text \<open>The first argument after the token is the caller (\<^verbatim>\<open>get_caller_address()\<close>).\<close>

definition purchase_multiple_assets ::
  "'l token \<Rightarrow> ContractAddress \<Rightarrow> DigitalAsset list \<Rightarrow> ContractAddress \<Rightarrow> 'l ContractState \<Rightarrow> 'l result" where
  "purchase_multiple_assets tok caller assets payment_currency s =
     (case assert_not_paused s of
        Some e \<Rightarrow> Inl (e, s)
      | None \<Rightarrow>
          if \<not> supported_currencies s payment_currency then Inl (UnsupportedCurrency, s)
          else (let buyer = caller in
                case calculate_total_price s assets of
                  Inl e \<Rightarrow> Inl (e, s)
                | Inr total_price \<Rightarrow>
                    (case process_payments tok assets total_price payment_currency buyer s of
                       Inl x \<Rightarrow> Inl x
                     | Inr s1 \<Rightarrow> transfer_asset_ownership assets buyer s1)))"

definition register_digital_asset ::
  "ContractAddress \<Rightarrow> u256 \<Rightarrow> ContractAddress \<Rightarrow> u256 \<Rightarrow> felt252 \<Rightarrow> 'l ContractState \<Rightarrow> 'l result" where
  "register_digital_asset caller aid sell pr metadata_hash s =
     (case assert_only_owner s caller of
        Some e \<Rightarrow> Inl (e, s)
      | None \<Rightarrow>
          if asset_registered s aid then Inl (AssetAlreadyRegistered, s)
          else Inr (s\<lparr>asset_metadata := (asset_metadata s)(aid := metadata_hash),
                      asset_ownership := (asset_ownership s)(aid := sell),
                      asset_registered := (asset_registered s)(aid := True),
                      events := events s @ [AssetRegistered aid sell pr]\<rparr>))"

definition set_commission_rate :: "ContractAddress \<Rightarrow> u256 \<Rightarrow> 'l ContractState \<Rightarrow> 'l result" where
  "set_commission_rate caller rate s =
     (case assert_only_owner s caller of
        Some e \<Rightarrow> Inl (e, s)
      | None \<Rightarrow>
          if \<not> rate < 10000 then Inl (InvalidCommissionRate, s)
          else Inr (s\<lparr>commission_rate := rate\<rparr>))"

definition add_supported_currency :: "ContractAddress \<Rightarrow> ContractAddress \<Rightarrow> 'l ContractState \<Rightarrow> 'l result" where
  "add_supported_currency caller currency s =
     (case assert_only_owner s caller of
        Some e \<Rightarrow> Inl (e, s)
      | None \<Rightarrow> Inr (s\<lparr>supported_currencies := (supported_currencies s)(currency := True)\<rparr>))"

definition remove_supported_currency :: "ContractAddress \<Rightarrow> ContractAddress \<Rightarrow> 'l ContractState \<Rightarrow> 'l result" where
  "remove_supported_currency caller currency s =
     (case assert_only_owner s caller of
        Some e \<Rightarrow> Inl (e, s)
      | None \<Rightarrow> Inr (s\<lparr>supported_currencies := (supported_currencies s)(currency := False)\<rparr>))"

definition get_asset_metadata :: "'l ContractState \<Rightarrow> u256 \<Rightarrow> felt252" where
  "get_asset_metadata s aid = asset_metadata s aid"

definition get_commission_rate :: "'l ContractState \<Rightarrow> u256" where
  "get_commission_rate s = commission_rate s"

definition is_currency_supported :: "'l ContractState \<Rightarrow> ContractAddress \<Rightarrow> bool" where
  "is_currency_supported s currency = supported_currencies s currency"

subsection \<open>Deployment and reachable states\<close>

text \<open>
  The contract has no constructor: at deployment every storage slot holds its default
  value and no event was emitted.
\<close>

definition deployed :: "'l \<Rightarrow> 'l ContractState" where
  "deployed l =
     \<lparr>ownable_owner = 0, pausable_paused = False, owner = 0, commission_rate = 0,
      supported_currencies = (\<lambda>_. False), asset_metadata = (\<lambda>_. 0),
      asset_ownership = (\<lambda>_. 0), asset_registered = (\<lambda>_. False),
      events = [], ledger = l, calls = []\<rparr>"

text \<open>
  One step of the system: a successful call of one of the five external functions that
  write, or a change made outside this contract's code, to the storage of the two
  components (whatever their own entry points allow) or to the tokens' ledgers. A reverted
  call and a view take no step.
\<close>

inductive step :: "'l token \<Rightarrow> 'l ContractState \<Rightarrow> 'l ContractState \<Rightarrow> bool" for tok :: "'l token" where
  step_purchase:
    "purchase_multiple_assets tok caller assets payment_currency s = Inr s' \<Longrightarrow> step tok s s'"
| step_register:
    "register_digital_asset caller aid sell pr metadata_hash s = Inr s' \<Longrightarrow> step tok s s'"
| step_set_rate:
    "set_commission_rate caller rate s = Inr s' \<Longrightarrow> step tok s s'"
| step_add_currency:
    "add_supported_currency caller currency s = Inr s' \<Longrightarrow> step tok s s'"
| step_remove_currency:
    "remove_supported_currency caller currency s = Inr s' \<Longrightarrow> step tok s s'"
| step_components:
    "step tok s (s\<lparr>ownable_owner := new_owner, pausable_paused := flag\<rparr>)"
| step_ledger:
    "step tok s (s\<lparr>ledger := l\<rparr>)"

inductive reachable :: "'l token \<Rightarrow> 'l ContractState \<Rightarrow> bool" for tok :: "'l token" where
  reachable_deployed: "reachable tok (deployed l)"
| reachable_step: "reachable tok s \<Longrightarrow> step tok s s' \<Longrightarrow> reachable tok s'"

subsection \<open>Two sample tokens\<close>

text \<open>
  Two tokens over a ledger of balances, used to run the contract on concrete inputs. Both
  move \<open>amount\<close> from sender to recipient when the sender's balance covers it. When it does
  not, \<open>reverting_token\<close> panics, and \<open>refusing_token\<close> returns \<^verbatim>\<open>false\<close> and moves
  nothing.
\<close>

definition move_balance :: "(ContractAddress \<Rightarrow> nat) \<Rightarrow> ContractAddress \<Rightarrow> ContractAddress \<Rightarrow> nat \<Rightarrow> (ContractAddress \<Rightarrow> nat)" where
  "move_balance bal sender recipient n =
     (let bal1 = bal(sender := bal sender - n) in bal1(recipient := bal1 recipient + n))"

definition reverting_token :: "(ContractAddress \<Rightarrow> nat) token" where
  "reverting_token currency bal sender recipient amount =
     (if bal sender < unat amount then None
      else Some (True, move_balance bal sender recipient (unat amount)))"

definition refusing_token :: "(ContractAddress \<Rightarrow> nat) token" where
  "refusing_token currency bal sender recipient amount =
     (if bal sender < unat amount then Some (False, bal)
      else Some (True, move_balance bal sender recipient (unat amount)))"

subsection \<open>Sample states and batches\<close>

text \<open>
  A state with owner 1 of the Ownable component, rate 500, currency 5 supported and the
  assets 1, 2 and 3 registered to the sellers 11, 12 and 13, over a ledger of balances;
  \<open>purse n\<close> is the ledger where only the buyer 9 holds anything, namely \<open>n\<close>.
\<close>

definition market :: "(ContractAddress \<Rightarrow> nat) \<Rightarrow> (ContractAddress \<Rightarrow> nat) ContractState" where
  "market bal =
     \<lparr>ownable_owner = 1, pausable_paused = False, owner = 0, commission_rate = 500,
      supported_currencies = (\<lambda>_. False)(5 := True),
      asset_metadata = (\<lambda>_. 0)(1 := 101, 2 := 102, 3 := 103),
      asset_ownership = (\<lambda>_. 0)(1 := 11, 2 := 12, 3 := 13),
      asset_registered = (\<lambda>_. False)(1 := True, 2 := True, 3 := True),
      events = [AssetRegistered 1 11 100, AssetRegistered 2 12 250, AssetRegistered 3 13 150],
      ledger = bal, calls = []\<rparr>"

definition purse :: "nat \<Rightarrow> (ContractAddress \<Rightarrow> nat)" where
  "purse n = (\<lambda>_. 0)(9 := n)"

definition item :: "ContractAddress \<Rightarrow> u256 \<Rightarrow> u256 \<Rightarrow> DigitalAsset" where
  "item sell aid pr = \<lparr>seller = sell, asset_id = aid, price = pr, metadata_ipfs_hash = 0\<rparr>"

definition batch3 :: "DigitalAsset list" where
  "batch3 = [item 11 1 100, item 12 2 250, item 13 3 150]"

section \<open>Properties of the building blocks\<close>

subsection \<open>Checked arithmetic\<close>

lemma u256_add_Inr: "u256_add a b = Inr c \<Longrightarrow> unat c = unat a + unat b"
  by (auto simp: u256_add_def unat_add_lem [THEN iffD1] split: if_splits)

lemma u256_add_Inl: "u256_add a b = Inl e \<Longrightarrow> e = ArithmeticOverflow \<and> 2 ^ 256 \<le> unat a + unat b"
  by (auto simp: u256_add_def split: if_splits)

lemma u256_le_9999: "(rate :: u256) \<le> 9999 \<longleftrightarrow> rate < 10000"
  by (simp add: word_le_nat_alt word_less_nat_alt) arith

subsection \<open>The pricing loop\<close>

lemma pricing_Inr:
  "calculate_total_price_loop s t xs = Inr r \<Longrightarrow>
     (\<forall>a\<in>set xs. asset_registered s (asset_id a)) \<and> unat r = unat t + sum_list (map (\<lambda>a. unat (price a)) xs)"
proof (induction xs arbitrary: t)
  case Nil
  then show ?case by simp
next
  case (Cons a xs)
  from Cons.prems obtain t' where reg: "asset_registered s (asset_id a)"
    and add: "u256_add t (price a) = Inr t'"
    and rest: "calculate_total_price_loop s t' xs = Inr r"
    by (auto split: if_splits sum.splits)
  from Cons.IH [OF rest] u256_add_Inr [OF add] reg show ?case by simp
qed


lemma pricing_all_registered:
  "\<forall>a\<in>set xs. asset_registered s (asset_id a) \<Longrightarrow>
   calculate_total_price_loop s t xs =
     (if unat t + sum_list (map (\<lambda>a. unat (price a)) xs) < 2 ^ 256
      then Inr (t + sum_list (map price xs)) else Inl ArithmeticOverflow)"
proof (induction xs arbitrary: t)
  case Nil
  have "unat t < 2 ^ 256" using unsigned_less [of t] by simp
  then show ?case by simp
next
  case (Cons a xs)
  show ?case
  proof (cases "u256_add t (price a)")
    case (Inl e)
    from u256_add_Inl [OF Inl] Cons.prems Inl show ?thesis by simp
  next
    case (Inr t')
    have t': "t' = t + price a" using Inr by (simp add: u256_add_def split: if_splits)
    from Cons.IH [of t'] Cons.prems Inr u256_add_Inr [OF Inr] show ?thesis
      by (simp add: t' add.assoc)
  qed
qed

lemma pricing_append:
  "calculate_total_price_loop s t xs = Inr t' \<Longrightarrow>
   calculate_total_price_loop s t (xs @ ys) = calculate_total_price_loop s t' ys"
proof (induction xs arbitrary: t)
  case Nil
  then show ?case by simp
next
  case (Cons a xs)
  then show ?case by (auto split: if_splits sum.splits)
qed

lemma pricing_first_unregistered:
  assumes pre: "\<forall>a\<in>set pre. asset_registered s (asset_id a)"
    and fits: "unat t + sum_list (map (\<lambda>a. unat (price a)) pre) < 2 ^ 256"
    and unreg: "\<not> asset_registered s (asset_id a)"
  shows "calculate_total_price_loop s t (pre @ a # post) = Inl UnregisteredAsset"
proof -
  from pricing_all_registered [OF pre, of t] fits
  have "calculate_total_price_loop s t pre = Inr (t + sum_list (map price pre))" by simp
  from pricing_append [OF this] unreg show ?thesis by simp
qed

subsection \<open>Payments and the ownership pass\<close>

lemma transferFrom_Inr:
  "transferFrom tok currency sender recipient amount s = Inr s' \<Longrightarrow>
   s' = s\<lparr>ledger := ledger s',
          calls := calls s @ [TransferFrom currency sender recipient amount]\<rparr>"
  by (auto simp: transferFrom_def split: option.splits)


lemma pay_sellers_Inr:
  "pay_sellers tok currency buyer xs s = Inr s' \<Longrightarrow>
   s' = s\<lparr>events := events s @ map (\<lambda>a. AssetPurchased (asset_id a) buyer (seller a) (price a)) xs,
          ledger := ledger s',
          calls := calls s @ map (\<lambda>a. TransferFrom currency buyer (seller a) (price a)) xs\<rparr>"
proof (induction xs arbitrary: s)
  case Nil
  then show ?case by simp
next
  case (Cons a xs)
  from Cons.prems obtain s1 where
    t: "transferFrom tok currency buyer (seller a) (price a) s = Inr s1" and
    r: "pay_sellers tok currency buyer xs
          (s1\<lparr>events := events s1 @ [AssetPurchased (asset_id a) buyer (seller a) (price a)]\<rparr>) = Inr s'"
    by (auto simp: Let_def split: sum.splits)
  have s1: "s1 = s\<lparr>ledger := ledger s1,
          calls := calls s @ [TransferFrom currency buyer (seller a) (price a)]\<rparr>"
    by (rule transferFrom_Inr [OF t])
  show ?case
    by (subst Cons.IH [OF r], subst (1 2 3) s1) simp
qed

lemma process_payments_Inr:
  assumes "process_payments tok xs total_price currency buyer s = Inr s'"
  shows "unat total_price * unat (commission_rate s) < 2 ^ 256 \<and>
     s' = s\<lparr>events := events s @ map (\<lambda>a. AssetPurchased (asset_id a) buyer (seller a) (price a)) xs,
          ledger := ledger s',
          calls := calls s @
            TransferFrom currency buyer (owner s) (total_price * commission_rate s div 10000)
            # map (\<lambda>a. TransferFrom currency buyer (seller a) (price a)) xs\<rparr>"
proof -
  from assms obtain s1 where
    fits: "unat total_price * unat (commission_rate s) < 2 ^ 256" and
    t: "transferFrom tok currency buyer (owner s) (total_price * commission_rate s div 10000) s = Inr s1" and
    r: "pay_sellers tok currency buyer xs s1 = Inr s'"
    by (auto simp: process_payments_def u256_mul_def Let_def split: sum.splits if_splits)
  have s1: "s1 = s\<lparr>ledger := ledger s1,
      calls := calls s @ [TransferFrom currency buyer (owner s) (total_price * commission_rate s div 10000)]\<rparr>"
    by (rule transferFrom_Inr [OF t])
  have "s' = s\<lparr>events := events s @ map (\<lambda>a. AssetPurchased (asset_id a) buyer (seller a) (price a)) xs,
          ledger := ledger s',
          calls := calls s @
            TransferFrom currency buyer (owner s) (total_price * commission_rate s div 10000)
            # map (\<lambda>a. TransferFrom currency buyer (seller a) (price a)) xs\<rparr>"
    by (subst pay_sellers_Inr [OF r], subst (1 2 3) s1) simp
  with fits show ?thesis by simp
qed

lemma transfer_asset_ownership_Inr:
  "transfer_asset_ownership xs buyer s = Inr s' \<Longrightarrow>
   s' = s\<lparr>asset_ownership := fold (\<lambda>a m. m(asset_id a := buyer)) xs (asset_ownership s)\<rparr>"
proof (induction xs arbitrary: s)
  case Nil
  then show ?case by simp
next
  case (Cons a xs)
  from Cons.prems have
    "transfer_asset_ownership xs buyer
       (s\<lparr>asset_ownership := (asset_ownership s)(asset_id a := buyer)\<rparr>) = Inr s'"
    by (simp add: Let_def split: if_splits)
  from Cons.IH [OF this] show ?case by simp
qed


lemma transfer_asset_ownership_stale:
  "(if asset_id a \<in> asset_id ` set pre then buyer else asset_ownership s (asset_id a)) \<noteq> seller a \<Longrightarrow>
   \<exists>sp. transfer_asset_ownership (pre @ a # post) buyer s = Inl (InvalidAssetOwnership, sp)"
proof (induction pre arbitrary: s)
  case Nil
  then show ?case by simp
next
  case (Cons p pre)
  show ?case
  proof (cases "asset_ownership s (asset_id p) = seller p")
    case False
    then show ?thesis by (simp add: Let_def)
  next
    case True
    let ?s1 = "s\<lparr>asset_ownership := (asset_ownership s)(asset_id p := buyer)\<rparr>"
    from Cons.prems
    have "(if asset_id a \<in> asset_id ` set pre then buyer else asset_ownership ?s1 (asset_id a)) \<noteq> seller a"
      by (auto split: if_splits)
    from Cons.IH [OF this] True show ?thesis by (simp add: Let_def)
  qed
qed

lemma purchase_multiple_assets_Inr:
  assumes "purchase_multiple_assets tok caller assets currency s = Inr s'"
  obtains tot s1 where "\<not> pausable_paused s" and "supported_currencies s currency"
    and "calculate_total_price s assets = Inr tot"
    and "process_payments tok assets tot currency caller s = Inr s1"
    and "transfer_asset_ownership assets caller s1 = Inr s'"
  using assms
  by (auto simp: purchase_multiple_assets_def assert_not_paused_def Let_def
      split: if_splits sum.splits)


lemma process_payments_storage:
  assumes "process_payments tok xs tot currency buyer s = Inr s1"
  shows "asset_ownership s1 = asset_ownership s" and "asset_registered s1 = asset_registered s"
    and "asset_metadata s1 = asset_metadata s" and "owner s1 = owner s"
    and "commission_rate s1 = commission_rate s" and "supported_currencies s1 = supported_currencies s"
    and "ownable_owner s1 = ownable_owner s" and "pausable_paused s1 = pausable_paused s"
    and "events s1 = events s @ map (\<lambda>a. AssetPurchased (asset_id a) buyer (seller a) (price a)) xs"
  using process_payments_Inr [OF assms, THEN conjunct2, THEN arg_cong, of asset_ownership]
    process_payments_Inr [OF assms, THEN conjunct2, THEN arg_cong, of asset_registered]
    process_payments_Inr [OF assms, THEN conjunct2, THEN arg_cong, of asset_metadata]
    process_payments_Inr [OF assms, THEN conjunct2, THEN arg_cong, of owner]
    process_payments_Inr [OF assms, THEN conjunct2, THEN arg_cong, of commission_rate]
    process_payments_Inr [OF assms, THEN conjunct2, THEN arg_cong, of supported_currencies]
    process_payments_Inr [OF assms, THEN conjunct2, THEN arg_cong, of ownable_owner]
    process_payments_Inr [OF assms, THEN conjunct2, THEN arg_cong, of pausable_paused]
    process_payments_Inr [OF assms, THEN conjunct2, THEN arg_cong, of events]
  by simp_all

lemma transfer_asset_ownership_storage:
  assumes "transfer_asset_ownership xs buyer s = Inr s'"
  shows "asset_registered s' = asset_registered s"
    and "asset_metadata s' = asset_metadata s" and "owner s' = owner s"
    and "commission_rate s' = commission_rate s" and "supported_currencies s' = supported_currencies s"
    and "ownable_owner s' = ownable_owner s" and "pausable_paused s' = pausable_paused s"
    and "events s' = events s" and "calls s' = calls s" and "ledger s' = ledger s"
    and "asset_ownership s' = fold (\<lambda>a m. m(asset_id a := buyer)) xs (asset_ownership s)"
  using transfer_asset_ownership_Inr [OF assms, THEN arg_cong, of asset_registered]
    transfer_asset_ownership_Inr [OF assms, THEN arg_cong, of asset_metadata]
    transfer_asset_ownership_Inr [OF assms, THEN arg_cong, of owner]
    transfer_asset_ownership_Inr [OF assms, THEN arg_cong, of commission_rate]
    transfer_asset_ownership_Inr [OF assms, THEN arg_cong, of supported_currencies]
    transfer_asset_ownership_Inr [OF assms, THEN arg_cong, of ownable_owner]
    transfer_asset_ownership_Inr [OF assms, THEN arg_cong, of pausable_paused]
    transfer_asset_ownership_Inr [OF assms, THEN arg_cong, of events]
    transfer_asset_ownership_Inr [OF assms, THEN arg_cong, of calls]
    transfer_asset_ownership_Inr [OF assms, THEN arg_cong, of ledger]
    transfer_asset_ownership_Inr [OF assms, THEN arg_cong, of asset_ownership]
  by simp_all

lemma fold_ownership:
  "fold (\<lambda>a m. m(asset_id a := buyer)) xs own i =
     (if i \<in> asset_id ` set xs then buyer else own i)"
  by (induction xs arbitrary: own) auto

lemma transfer_asset_ownership_fresh:
  assumes "transfer_asset_ownership (pre @ a # post) buyer s = Inr s'"
  shows "(if asset_id a \<in> asset_id ` set pre then buyer else asset_ownership s (asset_id a)) = seller a"
proof (rule ccontr)
  assume "(if asset_id a \<in> asset_id ` set pre then buyer else asset_ownership s (asset_id a)) \<noteq> seller a"
  from transfer_asset_ownership_stale [OF this, of post] assms show False by auto
qed

subsection \<open>What a token that carries out its transfers does to a balance\<close>





subsection \<open>How a purchase can fail\<close>


lemma pay_sellers_append:
  "pay_sellers tok currency buyer (xs @ ys) s =
     (case pay_sellers tok currency buyer xs s of
        Inl x \<Rightarrow> Inl x
      | Inr s2 \<Rightarrow> pay_sellers tok currency buyer ys s2)"
  by (induction xs arbitrary: s) (simp_all add: Let_def split: sum.splits)

lemma process_payments_append:
  "process_payments tok (xs @ ys) tot currency buyer s =
     (case process_payments tok xs tot currency buyer s of
        Inl x \<Rightarrow> Inl x
      | Inr s2 \<Rightarrow> pay_sellers tok currency buyer ys s2)"
  by (simp add: process_payments_def Let_def pay_sellers_append split: sum.splits)

lemma process_payments_panic_at_item:
  assumes p: "process_payments tok pre tot currency buyer s = Inr s2"
    and n: "tok currency (ledger s2) buyer (seller a) (price a) = None"
  shows "process_payments tok (pre @ a # post) tot currency buyer s = Inl (TransferFailed, s2)"
    and "events s2 = events s @ map (\<lambda>b. AssetPurchased (asset_id b) buyer (seller b) (price b)) pre"
    and "calls s2 = calls s
           @ TransferFrom currency buyer (owner s) (tot * commission_rate s div 10000)
           # map (\<lambda>b. TransferFrom currency buyer (seller b) (price b)) pre"
proof -
  from p n show "process_payments tok (pre @ a # post) tot currency buyer s = Inl (TransferFailed, s2)"
    by (simp add: process_payments_append transferFrom_def Let_def)
  show "events s2 = events s @ map (\<lambda>b. AssetPurchased (asset_id b) buyer (seller b) (price b)) pre"
    by (rule process_payments_storage(9) [OF p])
  show "calls s2 = calls s
           @ TransferFrom currency buyer (owner s) (tot * commission_rate s div 10000)
           # map (\<lambda>b. TransferFrom currency buyer (seller b) (price b)) pre"
    using process_payments_Inr [OF p, THEN conjunct2, THEN arg_cong, of calls] by simp
qed



subsection \<open>Steps and reachable states\<close>

lemma purchase_multiple_assets_storage:
  assumes "purchase_multiple_assets tok caller assets currency s = Inr s'"
  shows "asset_registered s' = asset_registered s" and "asset_metadata s' = asset_metadata s"
    and "owner s' = owner s" and "commission_rate s' = commission_rate s"
    and "supported_currencies s' = supported_currencies s"
proof -
  from assms obtain tot s1 where
    p: "process_payments tok assets tot currency caller s = Inr s1" and
    t: "transfer_asset_ownership assets caller s1 = Inr s'"
    by (rule purchase_multiple_assets_Inr)
  note ps = process_payments_storage [OF p] and ts = transfer_asset_ownership_storage [OF t]
  show "asset_registered s' = asset_registered s" by (simp add: ts(1) ps(2))
  show "asset_metadata s' = asset_metadata s" by (simp add: ts(2) ps(3))
  show "owner s' = owner s" by (simp add: ts(3) ps(4))
  show "commission_rate s' = commission_rate s" by (simp add: ts(4) ps(5))
  show "supported_currencies s' = supported_currencies s" by (simp add: ts(5) ps(6))
qed

lemma step_owner: "step tok s s' \<Longrightarrow> owner s' = owner s"
proof (induction rule: step.induct)
  case (step_purchase caller assets payment_currency s s')
  then show ?case by (rule purchase_multiple_assets_storage)
next
  case (step_register caller aid sell pr metadata_hash s s')
  then show ?case
    by (auto simp: register_digital_asset_def split: option.splits if_splits)
next
  case (step_set_rate caller rate s s')
  then show ?case
    by (auto simp: set_commission_rate_def split: option.splits if_splits)
next
  case (step_add_currency caller currency s s')
  then show ?case
    by (auto simp: add_supported_currency_def split: option.splits)
next
  case (step_remove_currency caller currency s s')
  then show ?case
    by (auto simp: remove_supported_currency_def split: option.splits)
qed simp_all

lemma step_registered:
  assumes "step tok s s'" and "asset_registered s i"
  shows "asset_registered s' i \<and> asset_metadata s' i = asset_metadata s i"
  using assms
proof (induction rule: step.induct)
  case (step_purchase caller assets payment_currency s s')
  then show ?case by (simp add: purchase_multiple_assets_storage)
next
  case (step_register caller aid sell pr metadata_hash s s')
  then show ?case
    by (auto simp: register_digital_asset_def split: option.splits if_splits)
next
  case (step_set_rate caller rate s s')
  then show ?case
    by (auto simp: set_commission_rate_def split: option.splits if_splits)
next
  case (step_add_currency caller currency s s')
  then show ?case
    by (auto simp: add_supported_currency_def split: option.splits)
next
  case (step_remove_currency caller currency s s')
  then show ?case
    by (auto simp: remove_supported_currency_def split: option.splits)
qed simp_all

lemma steps_registered:
  assumes "rtranclp (step tok) s s'" and "asset_registered s i"
  shows "asset_registered s' i \<and> asset_metadata s' i = asset_metadata s i"
  using assms
proof (induction rule: rtranclp_induct)
  case base
  then show ?case by simp
next
  case (step y z)
  with step_registered [of tok y z i] show ?case by simp
qed

lemma reachable_owner: "reachable tok s \<Longrightarrow> owner s = 0"
  by (induction rule: reachable.induct) (simp_all add: deployed_def step_owner)

subsection \<open>Running the contract on concrete inputs\<close>

lemmas run_defs =
  invoke_def purchase_multiple_assets_def assert_not_paused_def assert_only_owner_def
  calculate_total_price_def u256_add_def u256_mul_def process_payments_def transferFrom_def
  reverting_token_def refusing_token_def move_balance_def market_def purse_def batch3_def
  item_def Let_def

text \<open>The sample state is reached from deployment by calls of the owner.\<close>

lemma market_reachable: "reachable tok (market l)"
proof -
  let ?s1 = "(deployed l)\<lparr>ownable_owner := 1, pausable_paused := False\<rparr>"
  let ?s2 = "?s1\<lparr>supported_currencies := (supported_currencies ?s1)(5 := True)\<rparr>"
  let ?s3 = "?s2\<lparr>commission_rate := 500\<rparr>"
  let ?s4 = "projr (register_digital_asset 1 1 11 100 101 ?s3)"
  let ?s5 = "projr (register_digital_asset 1 2 12 250 102 ?s4)"
  let ?s6 = "projr (register_digital_asset 1 3 13 150 103 ?s5)"
  have "reachable tok (deployed l)" by (rule reachable_deployed)
  then have "reachable tok ?s1" by (rule reachable_step) (rule step_components)
  moreover have "add_supported_currency 1 5 ?s1 = Inr ?s2"
    by (simp add: add_supported_currency_def assert_only_owner_def)
  ultimately have "reachable tok ?s2" by (blast intro: reachable_step step_add_currency)
  moreover have "set_commission_rate 1 500 ?s2 = Inr ?s3"
    by (simp add: set_commission_rate_def assert_only_owner_def)
  ultimately have "reachable tok ?s3" by (blast intro: reachable_step step_set_rate)
  moreover have "register_digital_asset 1 1 11 100 101 ?s3 = Inr ?s4"
    by (simp add: register_digital_asset_def assert_only_owner_def deployed_def)
  ultimately have "reachable tok ?s4" by (blast intro: reachable_step step_register)
  moreover have "register_digital_asset 1 2 12 250 102 ?s4 = Inr ?s5"
    by (simp add: register_digital_asset_def assert_only_owner_def deployed_def)
  ultimately have "reachable tok ?s5" by (blast intro: reachable_step step_register)
  moreover have "register_digital_asset 1 3 13 150 103 ?s5 = Inr ?s6"
    by (simp add: register_digital_asset_def assert_only_owner_def deployed_def)
  ultimately have "reachable tok ?s6" by (blast intro: reachable_step step_register)
  moreover have "?s6 = market l"
    by (simp add: register_digital_asset_def assert_only_owner_def deployed_def market_def)
  ultimately show ?thesis by simp
qed

section \<open>The claims\<close>

subsection \<open>C1: all or nothing\<close>




subsection \<open>C2: fund movement\<close>





subsection \<open>C3: events, the ownership re-check and the owner update\<close>

text \<open>
  C3 (as the code has it). In a settlement that succeeds, the \<open>AssetPurchased\<close> events
  of all items are emitted by the payment pass, in a state where no recorded owner has
  changed yet. The ownership pass runs afterwards on that state and emits nothing: for each
  item, in batch order, it finds the owner recorded at that moment equal to the declared
  seller and sets the owner to the buyer. At the end every asset of the batch belongs to
  the buyer and the log has grown by exactly one \<open>AssetPurchased\<close> event per item, in
  batch order. Inside the payment pass the event of an item is emitted after the transfer
  of that item has returned and before the transfer of the next item is requested: when the
  token panics at the transfer of an item, the state at the panic holds the events and the
  calls of exactly the items before it, and the purchase panics in that state.
\<close>

theorem purchase_event_order:
  "(\<forall>s'. purchase_multiple_assets tok caller assets currency s = Inr s' \<longrightarrow>
      (\<exists>tot s1.
          process_payments tok assets tot currency caller s = Inr s1
        \<and> events s1 = events s @ map (\<lambda>a. AssetPurchased (asset_id a) caller (seller a) (price a)) assets
        \<and> asset_ownership s1 = asset_ownership s
        \<and> transfer_asset_ownership assets caller s1 = Inr s'
        \<and> events s' = events s1)
      \<and> (\<forall>pre a post. assets = pre @ a # post \<longrightarrow>
            (if asset_id a \<in> asset_id ` set pre then caller else asset_ownership s (asset_id a)) = seller a)
      \<and> (\<forall>a\<in>set assets. asset_ownership s' (asset_id a) = caller)
      \<and> events s' = events s @ map (\<lambda>a. AssetPurchased (asset_id a) caller (seller a) (price a)) assets)
   \<and> (\<forall>tot pre a post s2.
          assets = pre @ a # post
        \<and> process_payments tok pre tot currency caller s = Inr s2
        \<and> tok currency (ledger s2) caller (seller a) (price a) = None \<longrightarrow>
          process_payments tok assets tot currency caller s = Inl (TransferFailed, s2)
        \<and> events s2 = events s @ map (\<lambda>b. AssetPurchased (asset_id b) caller (seller b) (price b)) pre
        \<and> calls s2 = calls s
             @ TransferFrom currency caller (owner s) (tot * commission_rate s div 10000)
             # map (\<lambda>b. TransferFrom currency caller (seller b) (price b)) pre
        \<and> (\<not> pausable_paused s \<and> supported_currencies s currency
             \<and> calculate_total_price s assets = Inr tot \<longrightarrow>
            purchase_multiple_assets tok caller assets currency s = Inl (TransferFailed, s2)))"
proof (intro conjI allI impI; (elim conjE)?)
  fix s' assume ok: "purchase_multiple_assets tok caller assets currency s = Inr s'"
  then obtain tot s1 where
    p: "process_payments tok assets tot currency caller s = Inr s1" and
    t: "transfer_asset_ownership assets caller s1 = Inr s'"
    by (rule purchase_multiple_assets_Inr)
  note ps = process_payments_storage [OF p]
  note ts = transfer_asset_ownership_storage [OF t]
  from p t ps(9) ps(1) ts(8) show "\<exists>tot s1.
        process_payments tok assets tot currency caller s = Inr s1
      \<and> events s1 = events s @ map (\<lambda>a. AssetPurchased (asset_id a) caller (seller a) (price a)) assets
      \<and> asset_ownership s1 = asset_ownership s
      \<and> transfer_asset_ownership assets caller s1 = Inr s'
      \<and> events s' = events s1"
    by blast
  show "events s' = events s @ map (\<lambda>a. AssetPurchased (asset_id a) caller (seller a) (price a)) assets"
    using ps(9) ts(8) by simp
  show "\<forall>a\<in>set assets. asset_ownership s' (asset_id a) = caller"
    by (simp add: ts(11) fold_ownership)
  fix pre a post assume "assets = pre @ a # post"
  then show "(if asset_id a \<in> asset_id ` set pre then caller else asset_ownership s (asset_id a)) = seller a"
    using transfer_asset_ownership_fresh [of pre a post caller s1 s'] t ps(1)
    by (simp split: if_splits)
next
  fix tot pre a post s2
  assume split: "assets = pre @ a # post"
    and p: "process_payments tok pre tot currency caller s = Inr s2"
    and n: "tok currency (ledger s2) caller (seller a) (price a) = None"
  note panic = process_payments_panic_at_item [OF p n]
  from panic(1) [of post] split
  show pp: "process_payments tok assets tot currency caller s = Inl (TransferFailed, s2)" by simp
  from panic(2)
  show "events s2 = events s @ map (\<lambda>b. AssetPurchased (asset_id b) caller (seller b) (price b)) pre" .
  from panic(3)
  show "calls s2 = calls s
             @ TransferFrom currency caller (owner s) (tot * commission_rate s div 10000)
             # map (\<lambda>b. TransferFrom currency caller (seller b) (price b)) pre" .
  assume "\<not> pausable_paused s" and "supported_currencies s currency"
    and "calculate_total_price s assets = Inr tot"
  with pp show "purchase_multiple_assets tok caller assets currency s = Inl (TransferFailed, s2)"
    by (simp add: purchase_multiple_assets_def assert_not_paused_def)
qed

theorem purchase_event_order_witness:
  "events (snd (invoke (purchase_multiple_assets reverting_token 9 batch3 5) (market (purse 1000))))
     = events (market (purse 1000))
       @ [AssetPurchased 1 9 11 100, AssetPurchased 2 9 12 250, AssetPurchased 3 9 13 150]
   \<and> map (asset_ownership (snd (invoke (purchase_multiple_assets reverting_token 9 batch3 5) (market (purse 1000)))))
        [1, 2, 3] = [9, 9, 9]
   \<and> asset_ownership (market (purse 1000)) 2 = 12
   \<and> isl (purchase_multiple_assets reverting_token 9 batch3 5 (market (purse 200)))
   \<and> fst (projl (purchase_multiple_assets reverting_token 9 batch3 5 (market (purse 200)))) = TransferFailed
   \<and> events (snd (projl (purchase_multiple_assets reverting_token 9 batch3 5 (market (purse 200)))))
       = events (market (purse 200)) @ [AssetPurchased 1 9 11 100]
   \<and> calls (snd (projl (purchase_multiple_assets reverting_token 9 batch3 5 (market (purse 200)))))
       = [TransferFrom 5 9 0 25, TransferFrom 5 9 11 100]"
proof -
  let ?s = "market (purse 1000)"
  let ?p = "market (purse 200)"
  define s' where "s' = projr (purchase_multiple_assets reverting_token 9 batch3 5 ?s)"
  define s2 where "s2 = projr (process_payments reverting_token [item 11 1 100] 500 5 9 ?p)"
  have ok: "purchase_multiple_assets reverting_token 9 batch3 5 ?s = Inr s'"
    by (simp add: s'_def run_defs)
  have inv: "snd (invoke (purchase_multiple_assets reverting_token 9 batch3 5) ?s) = s'"
    by (simp add: invoke_def ok)
  note inst = purchase_event_order [where tok = reverting_token and caller = 9
      and assets = batch3 and currency = 5 and s = ?s, THEN conjunct1, rule_format, OF ok]
  have split: "batch3 = [item 11 1 100] @ item 12 2 250 # [item 13 3 150]"
    by (simp add: batch3_def)
  from inst [THEN conjunct2, THEN conjunct1, rule_format, OF split]
  have recheck: "asset_ownership ?s 2 = 12"
    by (simp add: item_def)
  have pre: "process_payments reverting_token [item 11 1 100] 500 5 9 ?p = Inr s2"
    by (simp add: s2_def run_defs)
  have none: "reverting_token 5 (ledger s2) 9 (seller (item 12 2 250)) (price (item 12 2 250)) = None"
    by (simp add: s2_def run_defs)
  have gates: "\<not> pausable_paused ?p \<and> supported_currencies ?p 5
      \<and> calculate_total_price ?p batch3 = Inr 500"
    by (simp add: run_defs)
  note panic = purchase_event_order [where tok = reverting_token and caller = 9
      and assets = batch3 and currency = 5 and s = ?p, THEN conjunct2, rule_format,
      of "[item 11 1 100]" "item 12 2 250" "[item 13 3 150]" 500 s2, OF conjI [OF split conjI [OF pre none]]]
  from panic [THEN conjunct2, THEN conjunct2, THEN conjunct2, rule_format, OF gates]
  have body: "purchase_multiple_assets reverting_token 9 batch3 5 ?p = Inl (TransferFailed, s2)" .
  from panic [THEN conjunct2, THEN conjunct1]
  have ev: "events s2 = events ?p @ [AssetPurchased 1 9 11 100]"
    by (simp add: item_def)
  from panic [THEN conjunct2, THEN conjunct2, THEN conjunct1]
  have cl: "calls s2 = [TransferFrom 5 9 0 25, TransferFrom 5 9 11 100]"
    by (simp add: item_def market_def)
  from recheck inst [THEN conjunct2, THEN conjunct2, THEN conjunct1]
    inst [THEN conjunct2, THEN conjunct2, THEN conjunct2] ev cl
  show ?thesis
    unfolding inv body by (simp add: batch3_def item_def)
qed

text \<open>
  The claim as written fails: for a one-item batch that settles, the state in which the
  ownership pass starts already holds the item's \<open>AssetPurchased\<close> event, while the
  recorded owner of the asset is still the seller.
\<close>

theorem event_before_ownership_counterexample:
  "\<not> isl (process_payments reverting_token [item 11 1 100] 100 5 9 (market (purse 1000)))
   \<and> purchase_multiple_assets reverting_token 9 [item 11 1 100] 5 (market (purse 1000))
       = transfer_asset_ownership [item 11 1 100] 9
           (projr (process_payments reverting_token [item 11 1 100] 100 5 9 (market (purse 1000))))
   \<and> fst (invoke (purchase_multiple_assets reverting_token 9 [item 11 1 100] 5) (market (purse 1000)))
       = Succeeded
   \<and> events (projr (process_payments reverting_token [item 11 1 100] 100 5 9 (market (purse 1000))))
       = events (market (purse 1000)) @ [AssetPurchased 1 9 11 100]
   \<and> asset_ownership (projr (process_payments reverting_token [item 11 1 100] 100 5 9 (market (purse 1000)))) 1
       = 11"
  by (simp add: run_defs)

subsection \<open>C4: the stale-ownership guard\<close>

text \<open>
  C4. Take a purchase that reaches the ownership pass: the gates passed, the pricing pass
  returned a total and the payments went through. If for some item of the batch the owner
  recorded when the pass reaches it (the buyer when an earlier item of the batch has the
  same asset, the owner recorded before the call otherwise) differs from the item's declared
  seller, the purchase is reverted with \<open>InvalidAssetOwnership\<close> and the state, every
  recorded owner included, is the state before the call.
\<close>

theorem stale_ownership_guard:
  assumes "\<not> pausable_paused s" and "supported_currencies s currency"
    and "calculate_total_price s assets = Inr tot"
    and "process_payments tok assets tot currency caller s = Inr s1"
    and "assets = pre @ a # post"
    and "(if asset_id a \<in> asset_id ` set pre then caller else asset_ownership s (asset_id a)) \<noteq> seller a"
  shows "invoke (purchase_multiple_assets tok caller assets currency) s
           = (Reverted InvalidAssetOwnership, s)"
proof -
  have "asset_ownership s1 = asset_ownership s"
    by (rule process_payments_storage [OF assms(4)])
  with assms(6)
  have "(if asset_id a \<in> asset_id ` set pre then caller else asset_ownership s1 (asset_id a)) \<noteq> seller a"
    by (simp split: if_splits)
  from transfer_asset_ownership_stale [OF this, of post]
  obtain sp where "transfer_asset_ownership assets caller s1 = Inl (InvalidAssetOwnership, sp)"
    using assms(5) by auto
  with assms(1-4) show ?thesis
    by (simp add: invoke_def purchase_multiple_assets_def assert_not_paused_def)
qed

theorem stale_ownership_guard_witness:
  "invoke (purchase_multiple_assets reverting_token 9 [item 11 1 100, item 13 2 250, item 13 3 150] 5)
       (market (purse 1000))
     = (Reverted InvalidAssetOwnership, market (purse 1000))
   \<and> asset_ownership (market (purse 1000)) 2 = 12"
proof -
  let ?s = "market (purse 1000)"
  let ?xs = "[item 11 1 100, item 13 2 250, item 13 3 150]"
  let ?p = "process_payments reverting_token ?xs 500 5 9 ?s"
  have 1: "\<not> pausable_paused ?s" and 2: "supported_currencies ?s 5"
    by (simp_all add: market_def)
  have 3: "calculate_total_price ?s ?xs = Inr 500"
    by (simp add: run_defs)
  have 4: "?p = Inr (projr ?p)"
    by (simp add: run_defs)
  have 5: "?xs = [item 11 1 100] @ item 13 2 250 # [item 13 3 150]"
    by simp
  have 6: "(if asset_id (item 13 2 250) \<in> asset_id ` set [item 11 1 100] then 9
            else asset_ownership ?s (asset_id (item 13 2 250))) \<noteq> seller (item 13 2 250)"
    by (simp add: item_def market_def)
  from stale_ownership_guard [OF 1 2 3 4 5 6] show ?thesis
    by (simp add: market_def)
qed

subsection \<open>C5: pricing and commission\<close>




subsection \<open>C6: validation and pricing pass\<close>

text \<open>
  C6. The pricing pass checks the registration of every item and adds the declared prices
  with checked arithmetic. A returned total is the exact sum of the prices (it never
  wraps) and every item is registered; when every item is registered the pass returns the
  sum if it fits 256 bits and fails with \<open>ArithmeticOverflow\<close> otherwise; an unregistered
  item reached without overflow fails with \<open>UnregisteredAsset\<close>. The pass writes nothing:
  when it fails inside a purchase that passed the gates, the state at the panic is the
  state before the call, and the call is reverted with that error.
\<close>

theorem calculate_total_price_checked:
  "(\<forall>t. calculate_total_price s assets = Inr t \<longrightarrow>
        (\<forall>a\<in>set assets. asset_registered s (asset_id a))
        \<and> unat t = sum_list (map (\<lambda>a. unat (price a)) assets))
   \<and> ((\<forall>a\<in>set assets. asset_registered s (asset_id a)) \<longrightarrow>
        calculate_total_price s assets =
          (if sum_list (map (\<lambda>a. unat (price a)) assets) < 2 ^ 256
           then Inr (sum_list (map price assets)) else Inl ArithmeticOverflow))
   \<and> (\<forall>pre a post. assets = pre @ a # post
          \<and> (\<forall>b\<in>set pre. asset_registered s (asset_id b))
          \<and> sum_list (map (\<lambda>b. unat (price b)) pre) < 2 ^ 256
          \<and> \<not> asset_registered s (asset_id a) \<longrightarrow>
        calculate_total_price s assets = Inl UnregisteredAsset)
   \<and> (\<forall>e tok caller currency.
          \<not> pausable_paused s \<and> supported_currencies s currency
          \<and> calculate_total_price s assets = Inl e \<longrightarrow>
        purchase_multiple_assets tok caller assets currency s = Inl (e, s)
        \<and> invoke (purchase_multiple_assets tok caller assets currency) s = (Reverted e, s))"
proof (intro conjI allI impI)
  fix t assume "calculate_total_price s assets = Inr t"
  then have r: "calculate_total_price_loop s 0 assets = Inr t"
    by (simp add: calculate_total_price_def)
  from pricing_Inr [OF r] show "\<forall>a\<in>set assets. asset_registered s (asset_id a)" by simp
  from pricing_Inr [OF r] show "unat t = sum_list (map (\<lambda>a. unat (price a)) assets)" by simp
next
  assume "\<forall>a\<in>set assets. asset_registered s (asset_id a)"
  from pricing_all_registered [OF this, of 0]
  show "calculate_total_price s assets =
          (if sum_list (map (\<lambda>a. unat (price a)) assets) < 2 ^ 256
           then Inr (sum_list (map price assets)) else Inl ArithmeticOverflow)"
    by (simp add: calculate_total_price_def)
next
  fix pre a post
  assume h: "assets = pre @ a # post
          \<and> (\<forall>b\<in>set pre. asset_registered s (asset_id b))
          \<and> sum_list (map (\<lambda>b. unat (price b)) pre) < 2 ^ 256
          \<and> \<not> asset_registered s (asset_id a)"
  then have "calculate_total_price_loop s 0 (pre @ a # post) = Inl UnregisteredAsset"
    by (intro pricing_first_unregistered) simp_all
  with h show "calculate_total_price s assets = Inl UnregisteredAsset"
    by (simp add: calculate_total_price_def)
next
  fix e tok caller currency
  assume h: "\<not> pausable_paused s \<and> supported_currencies s currency
          \<and> calculate_total_price s assets = Inl e"
  then show b: "purchase_multiple_assets tok caller assets currency s = Inl (e, s)"
    by (simp add: purchase_multiple_assets_def assert_not_paused_def)
  then show "invoke (purchase_multiple_assets tok caller assets currency) s = (Reverted e, s)"
    by (simp add: invoke_def)
qed


theorem calculate_total_price_checked_witness:
  "calculate_total_price (market (purse 0)) batch3 = Inr 500
   \<and> calculate_total_price (market (purse 0)) [item 11 1 (2 ^ 255), item 12 2 (2 ^ 255)] = Inl ArithmeticOverflow
   \<and> calculate_total_price (market (purse 0)) [item 11 1 100, item 14 4 250, item 13 3 150] = Inl UnregisteredAsset
   \<and> invoke (purchase_multiple_assets reverting_token 9 [item 11 1 (2 ^ 255), item 12 2 (2 ^ 255)] 5) (market (purse 0))
       = (Reverted ArithmeticOverflow, market (purse 0))"
proof -
  let ?s = "market (purse 0)"
  let ?big = "[item 11 1 (2 ^ 255), item 12 2 (2 ^ 255)]"
  have reg3: "\<forall>a\<in>set batch3. asset_registered ?s (asset_id a)"
    by (simp add: batch3_def item_def market_def)
  have regb: "\<forall>a\<in>set ?big. asset_registered ?s (asset_id a)"
    by (simp add: item_def market_def)
  have a: "calculate_total_price ?s batch3 = Inr 500"
    using calculate_total_price_checked [of ?s batch3] reg3
    by (simp add: batch3_def item_def)
  have b: "calculate_total_price ?s ?big = Inl ArithmeticOverflow"
    using calculate_total_price_checked [of ?s ?big] regb
    by (simp add: item_def)
  have c: "calculate_total_price ?s [item 11 1 100, item 14 4 250, item 13 3 150] = Inl UnregisteredAsset"
    using calculate_total_price_checked [of ?s "[item 11 1 100, item 14 4 250, item 13 3 150]",
        THEN conjunct2, THEN conjunct2, THEN conjunct1, rule_format,
        of "[item 11 1 100]" "item 14 4 250" "[item 13 3 150]"]
    by (simp add: item_def market_def)
  have d: "invoke (purchase_multiple_assets reverting_token 9 ?big 5) ?s = (Reverted ArithmeticOverflow, ?s)"
    using calculate_total_price_checked [of ?s ?big,
        THEN conjunct2, THEN conjunct2, THEN conjunct2, rule_format,
        of 5 ArithmeticOverflow reverting_token 9] b
    by (simp add: market_def)
  from a b c d show ?thesis by simp
qed

subsection \<open>C7: the bound on the commission rate\<close>

text \<open>
  C7. Called by the owner of the Ownable component, \<open>set_commission_rate\<close> is reverted
  with \<open>InvalidCommissionRate\<close> for every rate of 10000 or more, leaving the state
  unchanged, and for every rate up to 9999 it succeeds, changes only the stored rate, and
  \<open>get_commission_rate\<close> then returns that rate.
\<close>

theorem set_commission_rate_bound:
  assumes "caller = ownable_owner s"
  shows "(10000 \<le> rate \<longrightarrow>
           invoke (set_commission_rate caller rate) s = (Reverted InvalidCommissionRate, s))
       \<and> (rate \<le> 9999 \<longrightarrow>
           invoke (set_commission_rate caller rate) s = (Succeeded, s\<lparr>commission_rate := rate\<rparr>)
           \<and> get_commission_rate (snd (invoke (set_commission_rate caller rate) s)) = rate)"
  using assms
  by (auto simp: set_commission_rate_def assert_only_owner_def invoke_def get_commission_rate_def
      u256_le_9999 not_less)

theorem set_commission_rate_bound_witness:
  "invoke (set_commission_rate 1 10000) (market (purse 0)) = (Reverted InvalidCommissionRate, market (purse 0))
   \<and> get_commission_rate (snd (invoke (set_commission_rate 1 10000) (market (purse 0)))) = 500
   \<and> get_commission_rate (snd (invoke (set_commission_rate 1 9999) (market (purse 0)))) = 9999
   \<and> fst (invoke (set_commission_rate 1 9999) (market (purse 0))) = Succeeded"
proof -
  have o: "(1::nat) = ownable_owner (market (purse 0))" by (simp add: market_def)
  have a: "invoke (set_commission_rate 1 10000) (market (purse 0)) = (Reverted InvalidCommissionRate, market (purse 0))"
    using set_commission_rate_bound [OF o, where rate = 10000] by simp
  have b: "invoke (set_commission_rate 1 9999) (market (purse 0))
             = (Succeeded, (market (purse 0))\<lparr>commission_rate := 9999\<rparr>)
           \<and> get_commission_rate (snd (invoke (set_commission_rate 1 9999) (market (purse 0)))) = 9999"
    using set_commission_rate_bound [OF o, where rate = 9999] by (simp add: get_commission_rate_def)
  have c: "get_commission_rate (market (purse 0)) = 500"
    by (simp add: get_commission_rate_def market_def)
  from a b c show ?thesis by (simp add: get_commission_rate_def)
qed

subsection \<open>C8: an asset is registered once\<close>

text \<open>
  C8. Once \<open>register_digital_asset\<close> has succeeded for an identifier, the asset is
  registered with the given metadata hash and seller, and after any number of further steps
  of the system it is still registered with the same metadata hash. Every later
  \<open>register_digital_asset\<close> with that identifier is reverted and leaves the state, and so
  the record, unchanged: with \<open>AssetAlreadyRegistered\<close> when the caller is the owner of
  the Ownable component, and with \<open>Unauthorized\<close>, from the check that comes first,
  when it is not.
\<close>

theorem registration_unique:
  assumes "register_digital_asset caller aid sell pr metadata_hash s = Inr s1"
    and "rtranclp (step tok) s1 s2"
  shows "asset_registered s1 aid \<and> asset_metadata s1 aid = metadata_hash \<and> asset_ownership s1 aid = sell
    \<and> asset_registered s2 aid \<and> asset_metadata s2 aid = metadata_hash
    \<and> (\<forall>caller' sell' pr' hash'.
          invoke (register_digital_asset caller' aid sell' pr' hash') s2
            = (Reverted (if caller' = ownable_owner s2 then AssetAlreadyRegistered else Unauthorized), s2))"
proof -
  from assms(1) have first: "asset_registered s1 aid" "asset_metadata s1 aid = metadata_hash"
    "asset_ownership s1 aid = sell"
    by (auto simp: register_digital_asset_def split: option.splits if_splits)
  from steps_registered [OF assms(2) first(1)] first(2)
  have later: "asset_registered s2 aid" "asset_metadata s2 aid = metadata_hash" by simp_all
  then have "invoke (register_digital_asset caller' aid sell' pr' hash') s2
            = (Reverted (if caller' = ownable_owner s2 then AssetAlreadyRegistered else Unauthorized), s2)"
    for caller' sell' pr' hash'
    by (simp add: invoke_def register_digital_asset_def assert_only_owner_def)
  with first later show ?thesis by simp
qed

theorem registration_unique_witness:
  "fst (invoke (register_digital_asset 1 4 14 400 104) (market (purse 1000))) = Succeeded
   \<and> fst (invoke (purchase_multiple_assets reverting_token 9 batch3 5)
        (snd (invoke (register_digital_asset 1 4 14 400 104) (market (purse 1000))))) = Succeeded
   \<and> invoke (register_digital_asset 1 4 15 1 999)
        (snd (invoke (purchase_multiple_assets reverting_token 9 batch3 5)
          (snd (invoke (register_digital_asset 1 4 14 400 104) (market (purse 1000))))))
      = (Reverted AssetAlreadyRegistered,
         snd (invoke (purchase_multiple_assets reverting_token 9 batch3 5)
          (snd (invoke (register_digital_asset 1 4 14 400 104) (market (purse 1000))))))
   \<and> fst (invoke (register_digital_asset 9 4 15 1 999)
        (snd (invoke (purchase_multiple_assets reverting_token 9 batch3 5)
          (snd (invoke (register_digital_asset 1 4 14 400 104) (market (purse 1000)))))))
      = Reverted Unauthorized
   \<and> get_asset_metadata
        (snd (invoke (purchase_multiple_assets reverting_token 9 batch3 5)
          (snd (invoke (register_digital_asset 1 4 14 400 104) (market (purse 1000)))))) 4 = 104"
proof -
  let ?s = "market (purse 1000)"
  define s1 where "s1 = projr (register_digital_asset 1 4 14 400 104 ?s)"
  define s2 where "s2 = projr (purchase_multiple_assets reverting_token 9 batch3 5 s1)"
  have reg: "register_digital_asset 1 4 14 400 104 ?s = Inr s1"
    by (simp add: s1_def register_digital_asset_def assert_only_owner_def market_def)
  have buy: "purchase_multiple_assets reverting_token 9 batch3 5 s1 = Inr s2"
    by (simp add: s2_def s1_def register_digital_asset_def run_defs)
  have i1: "invoke (register_digital_asset 1 4 14 400 104) ?s = (Succeeded, s1)"
    unfolding invoke_def reg by simp
  have i2: "invoke (purchase_multiple_assets reverting_token 9 batch3 5) s1 = (Succeeded, s2)"
    unfolding invoke_def buy by simp
  have o: "ownable_owner s2 = 1"
    by (simp add: s2_def s1_def register_digital_asset_def run_defs)
  from buy have "step reverting_token s1 s2" by (rule step_purchase)
  then have "rtranclp (step reverting_token) s1 s2" by (rule r_into_rtranclp)
  from registration_unique [OF reg this] o show ?thesis
    unfolding i1 snd_conv fst_conv i2
    by (simp add: get_asset_metadata_def)
qed

subsection \<open>C9: the pause gate and the currency gate\<close>

text \<open>
  C9. For every token, caller and batch: when the pause flag is set the purchase panics
  with \<open>SystemPaused\<close>, and when it is not set and the currency is not supported the
  purchase panics with \<open>UnsupportedCurrency\<close>. In both cases the state at the panic is
  the state before the call (no transfer was requested, nothing was written or emitted)
  and the call is reverted.
\<close>

theorem purchase_gate_checks:
  "(pausable_paused s \<longrightarrow>
      purchase_multiple_assets tok caller assets currency s = Inl (SystemPaused, s)
      \<and> invoke (purchase_multiple_assets tok caller assets currency) s = (Reverted SystemPaused, s))
   \<and> (\<not> pausable_paused s \<and> \<not> supported_currencies s currency \<longrightarrow>
      purchase_multiple_assets tok caller assets currency s = Inl (UnsupportedCurrency, s)
      \<and> invoke (purchase_multiple_assets tok caller assets currency) s = (Reverted UnsupportedCurrency, s))"
  by (simp add: purchase_multiple_assets_def assert_not_paused_def invoke_def)

theorem purchase_gate_checks_witness:
  "fst (invoke (purchase_multiple_assets reverting_token 9 batch3 5) (market (purse 1000))) = Succeeded
   \<and> invoke (purchase_multiple_assets reverting_token 9 batch3 5) ((market (purse 1000))\<lparr>pausable_paused := True\<rparr>)
       = (Reverted SystemPaused, (market (purse 1000))\<lparr>pausable_paused := True\<rparr>)
   \<and> invoke (purchase_multiple_assets reverting_token 9 batch3 6) (market (purse 1000))
       = (Reverted UnsupportedCurrency, market (purse 1000))"
proof -
  have a: "fst (invoke (purchase_multiple_assets reverting_token 9 batch3 5) (market (purse 1000))) = Succeeded"
    by (simp add: invoke_def purchase_multiple_assets_def assert_not_paused_def
        calculate_total_price_def u256_add_def u256_mul_def process_payments_def transferFrom_def
        reverting_token_def move_balance_def market_def purse_def batch3_def item_def Let_def)
  have b: "invoke (purchase_multiple_assets reverting_token 9 batch3 5) ((market (purse 1000))\<lparr>pausable_paused := True\<rparr>)
       = (Reverted SystemPaused, (market (purse 1000))\<lparr>pausable_paused := True\<rparr>)"
    using purchase_gate_checks [where s = "(market (purse 1000))\<lparr>pausable_paused := True\<rparr>"
        and tok = reverting_token and caller = 9 and assets = batch3 and currency = 5]
    by simp
  have c: "invoke (purchase_multiple_assets reverting_token 9 batch3 6) (market (purse 1000))
       = (Reverted UnsupportedCurrency, market (purse 1000))"
    using purchase_gate_checks [where s = "market (purse 1000)"
        and tok = reverting_token and caller = 9 and assets = batch3 and currency = 6]
    by (simp add: market_def)
  from a b c show ?thesis by simp
qed

subsection \<open>C10: the recipient of the commission\<close>

text \<open>
  C10. No step of the system changes the \<open>owner\<close> storage field, a field of its own
  beside the owner stored by the Ownable component, and the deployed contract holds zero
  there. So in every reachable state the field is zero, and the commission transfer of
  \<open>process_payments\<close> names the zero address as recipient.
\<close>

theorem commission_recipient_unset:
  "(\<forall>s s'. step tok s s' \<longrightarrow> owner s' = owner s)
   \<and> (\<forall>l. owner (deployed l :: 'l ContractState) = 0)
   \<and> (\<forall>s. reachable tok s \<longrightarrow>
        owner s = 0
        \<and> (\<forall>assets tot currency buyer s'.
              process_payments tok assets tot currency buyer s = Inr s' \<longrightarrow>
              calls s' = calls s
                @ TransferFrom currency buyer 0 (tot * commission_rate s div 10000)
                # map (\<lambda>a. TransferFrom currency buyer (seller a) (price a)) assets))"
proof (intro conjI allI impI)
  fix s s' assume "step tok s s'"
  then show "owner s' = owner s" by (rule step_owner)
next
  fix l :: 'l show "owner (deployed l) = 0" by (simp add: deployed_def)
next
  fix s assume "reachable tok s"
  then show "owner s = 0" by (rule reachable_owner)
next
  fix s assets tot currency buyer s'
  assume r: "reachable tok s"
    and p: "process_payments tok assets tot currency buyer s = Inr s'"
  from process_payments_Inr [OF p, THEN conjunct2, THEN arg_cong, of calls] reachable_owner [OF r]
  show "calls s' = calls s
                @ TransferFrom currency buyer 0 (tot * commission_rate s div 10000)
                # map (\<lambda>a. TransferFrom currency buyer (seller a) (price a)) assets"
    by simp
qed

theorem commission_recipient_unset_witness:
  "owner (market (purse 1000)) = 0
   \<and> ownable_owner (market (purse 1000)) = 1
   \<and> calls (snd (invoke (purchase_multiple_assets reverting_token 9 batch3 5) (market (purse 1000))))
       = [TransferFrom 5 9 0 25, TransferFrom 5 9 11 100, TransferFrom 5 9 12 250, TransferFrom 5 9 13 150]
   \<and> owner (snd (invoke (purchase_multiple_assets reverting_token 9 batch3 5) (market (purse 1000)))) = 0"
proof -
  let ?s = "market (purse 1000)"
  define s1 where "s1 = projr (process_payments reverting_token batch3 500 5 9 ?s)"
  define s' where "s' = projr (purchase_multiple_assets reverting_token 9 batch3 5 ?s)"
  have r: "reachable reverting_token ?s" by (rule market_reachable)
  have p: "process_payments reverting_token batch3 500 5 9 ?s = Inr s1"
    by (simp add: s1_def run_defs)
  have ok: "purchase_multiple_assets reverting_token 9 batch3 5 ?s = Inr s'"
    by (simp add: s'_def run_defs)
  have t: "purchase_multiple_assets reverting_token 9 batch3 5 ?s
             = transfer_asset_ownership batch3 9 s1"
    by (simp add: s1_def run_defs)
  have inv: "snd (invoke (purchase_multiple_assets reverting_token 9 batch3 5) ?s) = s'"
    by (simp add: invoke_def ok)
  note inst = commission_recipient_unset [where tok = reverting_token]
  from inst [THEN conjunct2, THEN conjunct2, rule_format, OF r]
  have o: "owner ?s = 0"
    and c: "calls s1 = calls ?s
                @ TransferFrom 5 9 0 (500 * commission_rate ?s div 10000)
                # map (\<lambda>a. TransferFrom 5 9 (seller a) (price a)) batch3"
    using p by blast+
  from ok have st: "step reverting_token ?s s'" by (rule step_purchase)
  from inst [THEN conjunct1, rule_format, OF st] have same: "owner s' = owner ?s" .
  from r st have "reachable reverting_token s'" by (rule reachable_step)
  with inst [THEN conjunct2, THEN conjunct2, rule_format, of s'] have o': "owner s' = 0"
    by blast
  from t ok have "transfer_asset_ownership batch3 9 s1 = Inr s'" by simp
  then have "calls s' = calls s1" by (rule transfer_asset_ownership_storage)
  with c have "calls s' = [TransferFrom 5 9 0 25, TransferFrom 5 9 11 100,
      TransferFrom 5 9 12 250, TransferFrom 5 9 13 150]"
    by (simp add: market_def batch3_def item_def)
  moreover have "ownable_owner ?s = 1" by (simp add: market_def)
  ultimately show ?thesis using o o' same unfolding inv by simp
qed

end
